theory Spec2Isabelle
  imports Main
begin

section \<open>Python strings and integers used by \<^verbatim>\<open>semver.py\<close>\<close>

text \<open>
  A Python \<^verbatim>\<open>str\<close> is modelled as a \<^typ>\<open>string\<close>: a list of characters
  whose codes are the code points 0 to 255. Every literal of the program
  (\<^verbatim>\<open>"0.0.0"\<close>, \<^verbatim>\<open>"."\<close>, \<^verbatim>\<open>"[major]"\<close>, \<^verbatim>\<open>"[minor]"\<close>) and every character that
  \<^verbatim>\<open>str(int)\<close> produces is ASCII. Python integers are unbounded, so they are
  \<^typ>\<open>int\<close>. The builtins below follow CPython on that range of characters; the
  interpreter's configurable limit on the number of digits of a conversion between
  \<^verbatim>\<open>int\<close> and \<^verbatim>\<open>str\<close> is not part of the model.
\<close>

datatype error = ValueError | CalledProcessError | OSError

subsection \<open>\<^verbatim>\<open>str.lower\<close>, \<^verbatim>\<open>str.strip\<close>, \<^verbatim>\<open>in\<close>, \<^verbatim>\<open>str.split\<close>, \<^verbatim>\<open>str.splitlines\<close>\<close>

definition is_upper :: "char \<Rightarrow> bool" where
  "is_upper c =
     (let n = (of_char c :: nat)
      in (65 \<le> n \<and> n \<le> 90) \<or> (192 \<le> n \<and> n \<le> 222 \<and> n \<noteq> 215))"

definition lower_char :: "char \<Rightarrow> char" where
  "lower_char c = (if is_upper c then char_of ((of_char c :: nat) + 32) else c)"

definition lower :: "string \<Rightarrow> string" where
  "lower s = map lower_char s"

text \<open>The characters \<^verbatim>\<open>str.isspace\<close> accepts, which \<^verbatim>\<open>strip()\<close> and \<^verbatim>\<open>int()\<close> remove.\<close>

definition is_space :: "char \<Rightarrow> bool" where
  "is_space c =
     (let n = (of_char c :: nat)
      in (9 \<le> n \<and> n \<le> 13) \<or> (28 \<le> n \<and> n \<le> 32) \<or> n = 133 \<or> n = 160)"

definition strip :: "string \<Rightarrow> string" where
  "strip s = rev (dropWhile is_space (rev (dropWhile is_space s)))"

text \<open>\<^verbatim>\<open>s.startswith(p)\<close> and the substring test \<^verbatim>\<open>p in s\<close>.\<close>

fun startswith :: "string \<Rightarrow> string \<Rightarrow> bool" where
  "startswith s [] = True"
| "startswith [] (p # ps) = False"
| "startswith (c # cs) (p # ps) = (c = p \<and> startswith cs ps)"

fun contains :: "string \<Rightarrow> string \<Rightarrow> bool" where
  "contains [] p = (p = [])"
| "contains (c # cs) p = (startswith (c # cs) p \<or> contains cs p)"

text \<open>\<^verbatim>\<open>s.split(sep)\<close> for a separator of one character: every occurrence splits,
  so the result has one more element than \<^verbatim>\<open>s\<close> has separators.\<close>

fun split_from :: "char \<Rightarrow> string \<Rightarrow> string \<Rightarrow> string list" where
  "split_from sep acc [] = [rev acc]"
| "split_from sep acc (c # cs) =
     (if c = sep then rev acc # split_from sep [] cs
      else split_from sep (c # acc) cs)"

definition split :: "string \<Rightarrow> char \<Rightarrow> string list" where
  "split s sep = split_from sep [] s"

text \<open>\<^verbatim>\<open>s.splitlines()\<close>: line boundaries are removed, \<^verbatim>\<open>\r\n\<close> counts once,
  and no empty line follows a final boundary.\<close>

definition is_linebreak :: "char \<Rightarrow> bool" where
  "is_linebreak c =
     (let n = (of_char c :: nat)
      in (10 \<le> n \<and> n \<le> 13) \<or> (28 \<le> n \<and> n \<le> 30) \<or> n = 133)"

fun lines_from :: "string \<Rightarrow> string \<Rightarrow> string list" where
  "lines_from acc [] = (if acc = [] then [] else [rev acc])"
| "lines_from acc [c] =
     (if is_linebreak c then [rev acc] else lines_from (c # acc) [])"
| "lines_from acc (c # d # cs) =
     (if c = CHR 0x0D \<and> d = CHR 0x0A then rev acc # lines_from [] cs
      else if is_linebreak c then rev acc # lines_from [] (d # cs)
      else lines_from (c # acc) (d # cs))"

definition splitlines :: "string \<Rightarrow> string list" where
  "splitlines s = lines_from [] s"

subsection \<open>\<^verbatim>\<open>int(str)\<close> and \<^verbatim>\<open>str(int)\<close>\<close>

definition is_digit :: "char \<Rightarrow> bool" where
  "is_digit c = (48 \<le> (of_char c :: nat) \<and> (of_char c :: nat) \<le> 57)"

definition digit_val :: "char \<Rightarrow> nat" where
  "digit_val c = of_char c - 48"

text \<open>The digits after the first one: a digit, or one underscore followed by a digit.\<close>

fun digits_from :: "nat \<Rightarrow> string \<Rightarrow> nat option" where
  "digits_from n [] = Some n"
| "digits_from n [c] =
     (if is_digit c then Some (10 * n + digit_val c) else None)"
| "digits_from n (c # d # cs) =
     (if is_digit c then digits_from (10 * n + digit_val c) (d # cs)
      else if c = CHR ''_'' \<and> is_digit d then digits_from (10 * n + digit_val d) cs
      else None)"

definition digits_value :: "string \<Rightarrow> nat option" where
  "digits_value s =
     (case s of
        [] \<Rightarrow> None
      | c # cs \<Rightarrow> if is_digit c then digits_from (digit_val c) cs else None)"

text \<open>\<^verbatim>\<open>int(s)\<close> in base ten: surrounding whitespace is dropped, one sign is allowed,
  anything else raises \<^verbatim>\<open>ValueError\<close>.\<close>

definition py_int :: "string \<Rightarrow> error + int" where
  "py_int s =
     (case strip s of
        [] \<Rightarrow> Inl ValueError
      | c # cs \<Rightarrow>
          if c = CHR ''-'' then
            (case digits_value cs of None \<Rightarrow> Inl ValueError | Some n \<Rightarrow> Inr (- int n))
          else if c = CHR ''+'' then
            (case digits_value cs of None \<Rightarrow> Inl ValueError | Some n \<Rightarrow> Inr (int n))
          else
            (case digits_value (c # cs) of None \<Rightarrow> Inl ValueError | Some n \<Rightarrow> Inr (int n)))"

definition digit_char :: "nat \<Rightarrow> char" where
  "digit_char d = char_of (48 + d)"

fun str_nat :: "nat \<Rightarrow> string" where
  "str_nat n =
     (if n < 10 then [digit_char n]
      else str_nat (n div 10) @ [digit_char (n mod 10)])"

declare str_nat.simps [simp del]

definition py_str :: "int \<Rightarrow> string" where
  "py_str i = (if i < 0 then CHR ''-'' # str_nat (nat (- i)) else str_nat (nat i))"

section \<open>The program\<close>

subsection \<open>\<^verbatim>\<open>parse_version\<close> and \<^verbatim>\<open>bump_version\<close>\<close>

definition BASE_VERSION :: string where
  "BASE_VERSION = ''0.0.0''"

text \<open>The unpacking into three names raises \<^verbatim>\<open>ValueError\<close> unless the split has
  exactly three parts, and so does each failing \<^verbatim>\<open>int\<close>.\<close>

definition parse_version :: "string \<Rightarrow> error + (int \<times> int \<times> int)" where
  "parse_version v =
     (case split v (CHR ''.'') of
        [x, y, z] \<Rightarrow>
          (case py_int x of
             Inl e \<Rightarrow> Inl e
           | Inr major \<Rightarrow>
               (case py_int y of
                  Inl e \<Rightarrow> Inl e
                | Inr minor \<Rightarrow>
                    (case py_int z of
                       Inl e \<Rightarrow> Inl e
                     | Inr patch \<Rightarrow> Inr (major, minor, patch))))
      | _ \<Rightarrow> Inl ValueError)"

text \<open>The f-string \<^verbatim>\<open>f"{major}.{minor}.{patch}"\<close> that \<^verbatim>\<open>bump_version\<close> returns.\<close>

definition format_version :: "int \<times> int \<times> int \<Rightarrow> string" where
  "format_version t =
     (case t of (major, minor, patch) \<Rightarrow>
        py_str major @ ''.'' @ py_str minor @ ''.'' @ py_str patch)"

definition bump_version :: "string \<Rightarrow> string \<Rightarrow> error + string" where
  "bump_version version level =
     (case parse_version version of
        Inl e \<Rightarrow> Inl e
      | Inr (major, minor, patch) \<Rightarrow>
          if level = ''major'' then Inr (format_version (major + 1, 0, 0))
          else if level = ''minor'' then Inr (format_version (major, minor + 1, 0))
          else Inr (format_version (major, minor, patch + 1)))"

subsection \<open>The version-control commands\<close>

text \<open>
  The three \<^verbatim>\<open>git\<close> commands are the environment of the program. A call of
  \<^verbatim>\<open>subprocess.check_output\<close> gives the text the command printed or raises;
  \<^verbatim>\<open>subprocess.run\<close> without \<^verbatim>\<open>check\<close> gives back the outcome of the command,
  whatever it is, and changes the tag store \<^typ>\<open>'s\<close>. The model records the
  argument list of each call; what the platform's shell makes of a list given with
  \<^verbatim>\<open>shell=True\<close> belongs to the environment \<open>run_tag\<close>.
\<close>

datatype tag_outcome = Success | AlreadyExists | WriteFailed

record 's vcs =
  rev_list :: "error + string"
  log_message :: "string \<Rightarrow> error + string"
  run_tag :: "'s \<Rightarrow> string list \<Rightarrow> tag_outcome \<times> 's"

definition get_commits :: "'s vcs \<Rightarrow> error + string list" where
  "get_commits g =
     (case rev_list g of
        Inl e \<Rightarrow> Inl e
      | Inr result \<Rightarrow> Inr (splitlines (strip result)))"

definition get_commit_message :: "'s vcs \<Rightarrow> string \<Rightarrow> error + string" where
  "get_commit_message g commit =
     (case log_message g commit of
        Inl e \<Rightarrow> Inl e
      | Inr msg \<Rightarrow> Inr (strip msg))"

subsection \<open>\<^verbatim>\<open>main\<close>\<close>

text \<open>The \<^verbatim>\<open>if\<close>/\<^verbatim>\<open>elif\<close>/\<^verbatim>\<open>else\<close> of the loop body that chooses the level.\<close>

definition classify :: "string \<Rightarrow> string" where
  "classify msg =
     (if contains (lower msg) ''[major]'' then ''major''
      else if contains (lower msg) ''[minor]'' then ''minor''
      else ''patch'')"

text \<open>
  What a run leaves behind: the exception that ended it, if any, the value of the
  local variable \<^verbatim>\<open>version\<close>, the tag store, the lines printed, and the argument
  lists given to \<^verbatim>\<open>subprocess.run\<close>, in order.
\<close>

record 's run =
  raised :: "error option"
  version :: string
  store :: 's
  stdout :: "string list"
  tag_calls :: "string list list"

fun main_loop :: "'s vcs \<Rightarrow> string list \<Rightarrow> 's run \<Rightarrow> 's run" where
  "main_loop g [] r = r"
| "main_loop g (c # cs) r =
     (case get_commit_message g c of
        Inl e \<Rightarrow> r\<lparr>raised := Some e\<rparr>
      | Inr msg \<Rightarrow>
          (case bump_version (version r) (classify msg) of
             Inl e \<Rightarrow> r\<lparr>raised := Some e\<rparr>
           | Inr v \<Rightarrow>
               main_loop g cs
                 (r\<lparr>version := v,
                    stdout := stdout r @ [take 7 c @ '' -> '' @ v @ '' -> '' @ msg],
                    tag_calls := tag_calls r @ [[''git'', ''tag'', ''v'' @ v, c]],
                    store := snd (run_tag g (store r) [''git'', ''tag'', ''v'' @ v, c])\<rparr>)))"

definition start :: "'s \<Rightarrow> 's run" where
  "start st = \<lparr>raised = None, version = BASE_VERSION, store = st, stdout = [], tag_calls = []\<rparr>"

text \<open>When \<^verbatim>\<open>get_commits\<close> raises, \<^verbatim>\<open>version\<close> has not been assigned yet; the
  field then holds the value it is about to get.\<close>

definition main :: "'s vcs \<Rightarrow> 's \<Rightarrow> 's run" where
  "main g st =
     (case get_commits g of
        Inl e \<Rightarrow> (start st)\<lparr>raised := Some e\<rparr>
      | Inr commits \<Rightarrow> main_loop g commits (start st))"

section \<open>The specification's terms\<close>

text \<open>
  The definitions of this section follow the words of the specification, not the
  code: a semantic version is a triple of integers ordered lexicographically, a bump
  level is one of three variants, the classification is a case-insensitive search,
  and the engine is a left fold over the messages.
\<close>

type_synonym semver = "int \<times> int \<times> int"

datatype BumpLevel = Major | Minor | Patch

definition version_less :: "semver \<Rightarrow> semver \<Rightarrow> bool" where
  "version_less s t =
     (case s of (a, b, c) \<Rightarrow> case t of (a', b', c') \<Rightarrow>
        a < a' \<or> (a = a' \<and> (b < b' \<or> (b = b' \<and> c < c'))))"

fun spec_bump :: "semver \<Rightarrow> BumpLevel \<Rightarrow> semver" where
  "spec_bump (major, minor, patch) Major = (major + 1, 0, 0)"
| "spec_bump (major, minor, patch) Minor = (major, minor + 1, 0)"
| "spec_bump (major, minor, patch) Patch = (major, minor, patch + 1)"

text \<open>Two characters are the same letter up to case; the search compares the
  message with the marker that way, position by position.\<close>

definition same_letter :: "char \<Rightarrow> char \<Rightarrow> bool" where
  "same_letter c d = (lower_char c = lower_char d)"

fun ci_startswith :: "string \<Rightarrow> string \<Rightarrow> bool" where
  "ci_startswith s [] = True"
| "ci_startswith [] (p # ps) = False"
| "ci_startswith (c # cs) (p # ps) = (same_letter c p \<and> ci_startswith cs ps)"

fun ci_contains :: "string \<Rightarrow> string \<Rightarrow> bool" where
  "ci_contains [] p = (p = [])"
| "ci_contains (c # cs) p = (ci_startswith (c # cs) p \<or> ci_contains cs p)"

definition spec_classify :: "string \<Rightarrow> BumpLevel" where
  "spec_classify msg =
     (if ci_contains msg ''[major]'' then Major
      else if ci_contains msg ''[minor]'' then Minor
      else Patch)"

fun spec_derive :: "semver \<Rightarrow> string list \<Rightarrow> semver list" where
  "spec_derive t [] = []"
| "spec_derive t (msg # msgs) =
     spec_bump t (spec_classify msg) # spec_derive (spec_bump t (spec_classify msg)) msgs"

section \<open>Observations of a run\<close>

text \<open>The order of the specification, read on version strings.\<close>

definition version_lt :: "string \<Rightarrow> string \<Rightarrow> bool" where
  "version_lt v w =
     (case parse_version v of
        Inl e \<Rightarrow> False
      | Inr s \<Rightarrow> (case parse_version w of Inl e \<Rightarrow> False | Inr t \<Rightarrow> version_less s t))"

text \<open>A call \<^verbatim>\<open>["git", "tag", name, commit]\<close> names a tag and a commit; the version
  it publishes is the name without its first character.\<close>

definition tag_name :: "string list \<Rightarrow> string" where
  "tag_name argv = argv ! 2"


definition tagged_versions :: "'s run \<Rightarrow> string list" where
  "tagged_versions r = map (\<lambda>argv. drop 1 (tag_name argv)) (tag_calls r)"

definition tag_argv :: "string \<Rightarrow> semver \<Rightarrow> string list" where
  "tag_argv c t = [''git'', ''tag'', ''v'' @ format_version t, c]"

text \<open>Whether the message of a commit can be read, and the message then.\<close>

definition readable :: "'s vcs \<Rightarrow> string \<Rightarrow> bool" where
  "readable g c = (case get_commit_message g c of Inl e \<Rightarrow> False | Inr msg \<Rightarrow> True)"

definition message :: "'s vcs \<Rightarrow> string \<Rightarrow> string" where
  "message g c = (case get_commit_message g c of Inl e \<Rightarrow> [] | Inr msg \<Rightarrow> msg)"

definition nonneg :: "semver \<Rightarrow> bool" where
  "nonneg t = (case t of (a, b, c) \<Rightarrow> 0 \<le> a \<and> 0 \<le> b \<and> 0 \<le> c)"

text \<open>The value of a string of digits, read from the left.\<close>

definition decimal :: "nat \<Rightarrow> string \<Rightarrow> nat" where
  "decimal k ds = foldl (\<lambda>a d. 10 * a + digit_val d) k ds"

text \<open>The level names of the program, one for each variant of the specification.\<close>

definition level_name :: "BumpLevel \<Rightarrow> string" where
  "level_name l = (case l of Major \<Rightarrow> ''major'' | Minor \<Rightarrow> ''minor'' | Patch \<Rightarrow> ''patch'')"

text \<open>The exception of the first commit whose message cannot be read.\<close>

definition first_failure :: "'s vcs \<Rightarrow> string list \<Rightarrow> error option" where
  "first_failure g cs =
     (case dropWhile (readable g) cs of
        [] \<Rightarrow> None
      | c # rest \<Rightarrow> (case get_commit_message g c of Inl e \<Rightarrow> Some e | Inr msg \<Rightarrow> None))"

text \<open>The commits a run gets through, which are those before the first unreadable
  message, and the versions the specification's fold gives them.\<close>

definition processed :: "'s vcs \<Rightarrow> string list \<Rightarrow> string list" where
  "processed g cs = takeWhile (readable g) cs"

definition derived :: "'s vcs \<Rightarrow> string list \<Rightarrow> semver list" where
  "derived g cs = spec_derive (0, 0, 0) (map (message g) (processed g cs))"

section \<open>Example repositories\<close>

text \<open>A history of three commits. Its tag store is the list of the tag names that
  exist: a name that is there already is refused, any other is added.\<close>

definition tag_store_step :: "string list \<Rightarrow> string list \<Rightarrow> tag_outcome \<times> string list" where
  "tag_store_step st argv =
     (if tag_name argv \<in> set st then (AlreadyExists, st) else (Success, tag_name argv # st))"

definition example_log :: "string \<Rightarrow> error + string" where
  "example_log c =
     (if c = ''1f3a5c7e9b'' then Inr ''init\<newline>''
      else if c = ''2e4b6d8fa0'' then Inr ''[minor] add feature\<newline>''
      else if c = ''3d5c7b9a1f'' then Inr ''[major] breaking change\<newline>''
      else Inl CalledProcessError)"

definition example_vcs :: "string list vcs" where
  "example_vcs =
     \<lparr>rev_list = Inr ''1f3a5c7e9b\<newline>2e4b6d8fa0\<newline>3d5c7b9a1f\<newline>'',
      log_message = example_log,
      run_tag = tag_store_step\<rparr>"

text \<open>The same history behind a tag store that rejects every write.\<close>

definition readonly_vcs :: "unit vcs" where
  "readonly_vcs =
     \<lparr>rev_list = Inr ''1f3a5c7e9b\<newline>2e4b6d8fa0\<newline>3d5c7b9a1f\<newline>'',
      log_message = example_log,
      run_tag = (\<lambda>st argv. (WriteFailed, st))\<rparr>"

text \<open>The same history again, with a second commit whose message cannot be read.\<close>

definition broken_log :: "string \<Rightarrow> error + string" where
  "broken_log c = (if c = ''2e4b6d8fa0'' then Inl CalledProcessError else example_log c)"

definition broken_vcs :: "string list vcs" where
  "broken_vcs =
     \<lparr>rev_list = Inr ''1f3a5c7e9b\<newline>2e4b6d8fa0\<newline>3d5c7b9a1f\<newline>'',
      log_message = broken_log,
      run_tag = tag_store_step\<rparr>"


section \<open>Decimal numerals, splitting and the round trip\<close>

lemma digit_char_is_digit: "d < 10 \<Longrightarrow> is_digit (digit_char d)"
  by (simp add: is_digit_def digit_char_def)

lemma digit_val_digit_char: "d < 10 \<Longrightarrow> digit_val (digit_char d) = d"
  by (simp add: digit_val_def digit_char_def)

lemma str_nat_not_Nil: "str_nat n \<noteq> []"
  by (subst str_nat.simps) simp

lemma str_nat_digits: "c \<in> set (str_nat n) \<Longrightarrow> is_digit c"
proof (induction n arbitrary: c rule: str_nat.induct)
  case (1 n)
  show ?case
  proof (cases "n < 10")
    case True
    with "1.prems" show ?thesis
      by (subst (asm) str_nat.simps) (simp add: digit_char_is_digit)
  next
    case False
    from "1.prems" have "c \<in> set (str_nat (n div 10)) \<or> c = digit_char (n mod 10)"
      using False by (subst (asm) str_nat.simps) auto
    then show ?thesis
      using "1.IH" [OF False] by (auto simp: digit_char_is_digit)
  qed
qed

lemma digits_from_decimal:
  "\<forall>c \<in> set ds. is_digit c \<Longrightarrow> digits_from k ds = Some (decimal k ds)"
  by (induction k ds rule: digits_from.induct) (simp_all add: decimal_def)

lemma decimal_str_nat: "decimal 0 (str_nat n) = n"
proof (induction n rule: str_nat.induct)
  case (1 n)
  show ?case
  proof (cases "n < 10")
    case True
    then show ?thesis
      by (subst str_nat.simps) (simp add: decimal_def digit_val_digit_char)
  next
    case False
    have "decimal 0 (str_nat n) = 10 * decimal 0 (str_nat (n div 10)) + n mod 10"
      using False by (subst str_nat.simps) (simp add: decimal_def digit_val_digit_char)
    then show ?thesis
      using "1.IH" [OF False] by simp
  qed
qed

lemma digits_value_str_nat: "digits_value (str_nat n) = Some n"
proof -
  obtain c cs where s: "str_nat n = c # cs"
    using str_nat_not_Nil [of n] by (cases "str_nat n") auto
  have dig: "\<forall>x \<in> set (c # cs). is_digit x"
    using str_nat_digits [of _ n] s by auto
  then have "digits_value (c # cs) = Some (decimal (digit_val c) cs)"
    by (simp add: digits_value_def digits_from_decimal)
  also have "decimal (digit_val c) cs = decimal 0 (c # cs)"
    by (simp add: decimal_def)
  finally show ?thesis
    using decimal_str_nat [of n] s by simp
qed

lemma digit_not_space: "is_digit c \<Longrightarrow> \<not> is_space c"
  by (auto simp: is_digit_def is_space_def Let_def)

lemma strip_id:
  assumes "s \<noteq> []" "\<not> is_space (hd s)" "\<not> is_space (last s)"
  shows "strip s = s"
proof -
  from assms have a: "dropWhile is_space s = s"
    by (cases s) auto
  from assms have "rev s \<noteq> []" "\<not> is_space (hd (rev s))"
    by (simp_all add: hd_rev)
  then have b: "dropWhile is_space (rev s) = rev s"
    by (cases "rev s") auto
  show ?thesis
    by (simp add: strip_def a b)
qed

lemma last_str_nat_digit: "is_digit (last (str_nat n))"
  using str_nat_digits [of "last (str_nat n)" n] str_nat_not_Nil [of n] by simp

lemma hd_str_nat_digit: "is_digit (hd (str_nat n))"
  using str_nat_digits [of "hd (str_nat n)" n] str_nat_not_Nil [of n] by simp

lemma py_int_str_nat: "py_int (str_nat n) = Inr (int n)"
proof -
  have st: "strip (str_nat n) = str_nat n"
    by (rule strip_id) (simp_all add: str_nat_not_Nil digit_not_space hd_str_nat_digit last_str_nat_digit)
  obtain c cs where s: "str_nat n = c # cs"
    using str_nat_not_Nil [of n] by (cases "str_nat n") auto
  have "is_digit c"
    using hd_str_nat_digit [of n] s by simp
  then have c: "c \<noteq> CHR ''-''" "c \<noteq> CHR ''+''"
    by (auto simp: is_digit_def)
  have st': "strip (c # cs) = c # cs"
    using st s by simp
  have "digits_value (c # cs) = Some n"
    using digits_value_str_nat [of n] s by simp
  then have "py_int (c # cs) = Inr (int n)"
    using c by (simp add: py_int_def st')
  then show ?thesis
    by (simp add: s)
qed

lemma py_int_py_str: "py_int (py_str i) = Inr i"
proof (cases "i < 0")
  case False
  then show ?thesis
    by (simp add: py_str_def py_int_str_nat)
next
  case True
  let ?s = "CHR ''-'' # str_nat (nat (- i))"
  have "\<not> is_space (CHR ''-'')"
    by (simp add: is_space_def)
  moreover have "\<not> is_space (last ?s)"
    by (simp add: str_nat_not_Nil digit_not_space last_str_nat_digit)
  ultimately have "strip ?s = ?s"
    by (intro strip_id) simp_all
  then show ?thesis
    using True by (simp add: py_str_def py_int_def digits_value_str_nat)
qed

lemma py_str_no_dot: "CHR ''.'' \<notin> set (py_str i)"
proof -
  have "\<not> is_digit (CHR ''.'')"
    by (simp add: is_digit_def)
  then have "CHR ''.'' \<notin> set (str_nat n)" for n
    using str_nat_digits by blast
  then show ?thesis
    by (simp add: py_str_def)
qed

lemma split_from_no_sep:
  "sep \<notin> set xs \<Longrightarrow> split_from sep acc xs = [rev acc @ xs]"
  by (induction xs arbitrary: acc) auto

lemma split_from_sep:
  "sep \<notin> set xs \<Longrightarrow> split_from sep acc (xs @ sep # rest) = (rev acc @ xs) # split_from sep [] rest"
  by (induction xs arbitrary: acc) auto

lemma split_format:
  "split (format_version (a, b, c)) (CHR ''.'') = [py_str a, py_str b, py_str c]"
  using split_from_sep [of "CHR ''.''" "py_str a" "[]" "py_str b @ CHR ''.'' # py_str c"]
        split_from_sep [of "CHR ''.''" "py_str b" "[]" "py_str c"]
        split_from_no_sep [of "CHR ''.''" "py_str c" "[]"]
  by (simp add: split_def format_version_def py_str_no_dot)

lemma parse_format: "parse_version (format_version (a, b, c)) = Inr (a, b, c)"
  by (simp add: parse_version_def split_format py_int_py_str)

lemma format_base_version: "format_version (0, 0, 0) = BASE_VERSION"
  by (simp add: BASE_VERSION_def format_version_def py_str_def str_nat.simps digit_char_def char_of_eq_iff)

lemma startswith_lower:
  "map lower_char p = p \<Longrightarrow> startswith (lower s) p = ci_startswith s p"
  by (induction s p rule: ci_startswith.induct) (auto simp: lower_def same_letter_def)

lemma contains_lower:
  "map lower_char p = p \<Longrightarrow> contains (lower s) p = ci_contains s p"
proof (induction s)
  case Nil
  then show ?case by (simp add: lower_def)
next
  case (Cons c cs)
  have "startswith (lower (c # cs)) p = ci_startswith (c # cs) p"
    using Cons.prems by (rule startswith_lower)
  then show ?case
    using Cons by (simp add: lower_def)
qed

lemma marker_major_lower: "map lower_char ''[major]'' = ''[major]''"
  by (simp add: lower_char_def is_upper_def)

lemma marker_minor_lower: "map lower_char ''[minor]'' = ''[minor]''"
  by (simp add: lower_char_def is_upper_def)

lemma contains_major: "contains (lower s) ''[major]'' = ci_contains s ''[major]''"
  by (rule contains_lower [OF marker_major_lower])

lemma contains_minor: "contains (lower s) ''[minor]'' = ci_contains s ''[minor]''"
  by (rule contains_lower [OF marker_minor_lower])

lemma classify_spec: "classify msg = level_name (spec_classify msg)"
  unfolding classify_def spec_classify_def contains_major contains_minor
  by (simp add: level_name_def)

lemma bump_version_format:
  "bump_version (format_version t) (level_name l) = Inr (format_version (spec_bump t l))"
  by (cases t; cases l) (simp_all add: bump_version_def parse_format level_name_def)

lemma bump_version_classify:
  "bump_version (format_version t) (classify msg) =
     Inr (format_version (spec_bump t (spec_classify msg)))"
  by (simp add: classify_spec bump_version_format)

lemma length_spec_derive: "length (spec_derive t msgs) = length msgs"
  by (induction msgs arbitrary: t) simp_all

lemma main_loop_calls:
  "version r = format_version t \<Longrightarrow>
   tag_calls (main_loop g cs r) =
     tag_calls r @ map2 tag_argv (takeWhile (readable g) cs)
       (spec_derive t (map (message g) (takeWhile (readable g) cs)))"
proof (induction cs arbitrary: r t)
  case Nil
  then show ?case by simp
next
  case (Cons c cs)
  show ?case
  proof (cases "get_commit_message g c")
    case (Inl e)
    then show ?thesis by (simp add: readable_def)
  next
    case (Inr msg)
    let ?t = "spec_bump t (spec_classify msg)"
    let ?r = "r\<lparr>version := format_version ?t,
                 stdout := stdout r @ [take 7 c @ '' -> '' @ format_version ?t @ '' -> '' @ msg],
                 tag_calls := tag_calls r @ [[''git'', ''tag'', ''v'' @ format_version ?t, c]],
                 store := snd (run_tag g (store r) [''git'', ''tag'', ''v'' @ format_version ?t, c])\<rparr>"
    have step: "main_loop g (c # cs) r = main_loop g cs ?r"
      using Inr Cons.prems by (simp add: bump_version_classify)
    have rd: "readable g c" and ms: "message g c = msg"
      using Inr by (simp_all add: readable_def message_def)
    have "version ?r = format_version ?t" by simp
    from Cons.IH [OF this] show ?thesis
      unfolding step by (simp add: rd ms tag_argv_def)
  qed
qed

lemma main_loop_version:
  "version r = format_version t \<Longrightarrow>
   version (main_loop g cs r) =
     format_version (last (t # spec_derive t (map (message g) (takeWhile (readable g) cs))))"
proof (induction cs arbitrary: r t)
  case Nil
  then show ?case by simp
next
  case (Cons c cs)
  show ?case
  proof (cases "get_commit_message g c")
    case (Inl e)
    then show ?thesis using Cons.prems by (simp add: readable_def)
  next
    case (Inr msg)
    let ?t = "spec_bump t (spec_classify msg)"
    let ?r = "r\<lparr>version := format_version ?t,
                 stdout := stdout r @ [take 7 c @ '' -> '' @ format_version ?t @ '' -> '' @ msg],
                 tag_calls := tag_calls r @ [[''git'', ''tag'', ''v'' @ format_version ?t, c]],
                 store := snd (run_tag g (store r) [''git'', ''tag'', ''v'' @ format_version ?t, c])\<rparr>"
    have step: "main_loop g (c # cs) r = main_loop g cs ?r"
      using Inr Cons.prems by (simp add: bump_version_classify)
    have rd: "readable g c" and ms: "message g c = msg"
      using Inr by (simp_all add: readable_def message_def)
    have "version ?r = format_version ?t" by simp
    from Cons.IH [OF this] show ?thesis
      unfolding step by (simp add: rd ms)
  qed
qed

lemma main_loop_raised:
  "version r = format_version t \<Longrightarrow> raised r = None \<Longrightarrow>
   raised (main_loop g cs r) = first_failure g cs"
proof (induction cs arbitrary: r t)
  case Nil
  then show ?case by (simp add: first_failure_def)
next
  case (Cons c cs)
  show ?case
  proof (cases "get_commit_message g c")
    case (Inl e)
    then show ?thesis by (simp add: readable_def first_failure_def)
  next
    case (Inr msg)
    let ?t = "spec_bump t (spec_classify msg)"
    let ?r = "r\<lparr>version := format_version ?t,
                 stdout := stdout r @ [take 7 c @ '' -> '' @ format_version ?t @ '' -> '' @ msg],
                 tag_calls := tag_calls r @ [[''git'', ''tag'', ''v'' @ format_version ?t, c]],
                 store := snd (run_tag g (store r) [''git'', ''tag'', ''v'' @ format_version ?t, c])\<rparr>"
    have step: "main_loop g (c # cs) r = main_loop g cs ?r"
      using Inr Cons.prems by (simp add: bump_version_classify)
    have "version ?r = format_version ?t" "raised ?r = None"
      using Cons.prems by simp_all
    moreover have "readable g c"
      using Inr by (simp add: readable_def)
    ultimately show ?thesis
      unfolding step using Cons.IH [of ?r ?t] by (simp add: first_failure_def)
  qed
qed

section \<open>The bump rules\<close>



section \<open>The loop and the fold of the specification\<close>

lemma length_derived: "length (derived g cs) = length (processed g cs)"
  by (simp add: derived_def length_spec_derive)

lemma start_version: "version (start st) = format_version (0, 0, 0)"
  by (simp add: start_def format_base_version)

lemma main_loop_start_calls:
  "tag_calls (main_loop g cs (start st)) = map2 tag_argv (processed g cs) (derived g cs)"
  using main_loop_calls [OF start_version, of g cs st]
  by (simp add: processed_def derived_def start_def)

lemma main_loop_start_version:
  "version (main_loop g cs (start st)) = format_version (last ((0, 0, 0) # derived g cs))"
  using main_loop_version [OF start_version, of g cs st]
  by (simp add: processed_def derived_def)

lemma main_loop_start_raised:
  "raised (main_loop g cs (start st)) = first_failure g cs"
  by (rule main_loop_raised [OF start_version]) (simp add: start_def)

lemma version_of_calls:
  "length cs = length ts \<Longrightarrow>
   map (\<lambda>argv. drop 1 (tag_name argv)) (map2 tag_argv cs ts) = map format_version ts"
  by (induction cs ts rule: list_induct2) (simp_all add: tag_name_def tag_argv_def)


lemma main_loop_tagged_versions:
  "tagged_versions (main_loop g cs (start st)) = map format_version (derived g cs)"
  unfolding tagged_versions_def main_loop_start_calls
  by (rule version_of_calls) (simp add: length_derived)

section \<open>Monotonicity\<close>







lemma bump_version_greater:
  assumes "parse_version v = Inr t"
  shows "\<exists>v'. bump_version v level = Inr v' \<and> version_lt v v'"
proof -
  obtain a b c where t: "t = (a, b, c)"
    by (cases t)
  show ?thesis
    using assms by (simp add: t bump_version_def version_lt_def parse_format version_less_def)
qed



section \<open>Classification\<close>

text \<open>
  C3. The test \<^verbatim>\<open>marker in msg.lower()\<close> of the program is the case-insensitive
  search for the marker, for \<^verbatim>\<open>[major]\<close> and for \<^verbatim>\<open>[minor]\<close>. A message that
  contains both markers, in any combination of cases, is classified major (indeed
  every message with the major marker is); a message that contains the minor marker
  and not the major one is classified minor.
\<close>

theorem classify_precedence:
  "contains (lower msg) ''[major]'' = ci_contains msg ''[major]'' \<and>
   contains (lower msg) ''[minor]'' = ci_contains msg ''[minor]'' \<and>
   (ci_contains msg ''[major]'' \<and> ci_contains msg ''[minor]'' \<longrightarrow> classify msg = ''major'') \<and>
   (ci_contains msg ''[major]'' \<longrightarrow> classify msg = ''major'') \<and>
   (ci_contains msg ''[minor]'' \<and> \<not> ci_contains msg ''[major]'' \<longrightarrow> classify msg = ''minor'')"
  by (simp add: classify_def contains_major contains_minor)

theorem classify_precedence_witness:
  "ci_contains ''[MAJOR] fix [minor] typo'' ''[major]'' \<and>
   ci_contains ''[MAJOR] fix [minor] typo'' ''[minor]'' \<and>
   classify ''[MAJOR] fix [minor] typo'' = ''major'' \<and>
   ci_contains ''Add [Minor] flag'' ''[minor]'' \<and>
   \<not> ci_contains ''Add [Minor] flag'' ''[major]'' \<and>
   classify ''Add [Minor] flag'' = ''minor''"
proof -
  have both: "ci_contains ''[MAJOR] fix [minor] typo'' ''[major]''"
    "ci_contains ''[MAJOR] fix [minor] typo'' ''[minor]''"
    by code_simp+
  have only: "ci_contains ''Add [Minor] flag'' ''[minor]''"
    "\<not> ci_contains ''Add [Minor] flag'' ''[major]''"
    by code_simp+
  show ?thesis
    using both only classify_precedence [of "''[MAJOR] fix [minor] typo''"]
      classify_precedence [of "''Add [Minor] flag''"]
    by blast
qed

lemma ci_startswith_hd:
  "ci_startswith s (p # ps) \<Longrightarrow> s \<noteq> [] \<and> same_letter (hd s) p"
  by (cases s) simp_all






section \<open>The end-to-end example\<close>

text \<open>
  C5. A history of exactly three commits whose messages are \<^verbatim>\<open>init\<close>,
  \<^verbatim>\<open>[minor] add feature\<close> and \<^verbatim>\<open>[major] breaking change\<close>, in that order, ends
  without an exception, derives the versions 0.0.1, 0.1.0 and 1.0.0, and asks for the
  tags v0.0.1, v0.1.0 and v1.0.0 on the first, second and third commit.
\<close>

theorem three_commit_example:
  "get_commits g = Inr [c1, c2, c3] \<Longrightarrow>
   get_commit_message g c1 = Inr ''init'' \<Longrightarrow>
   get_commit_message g c2 = Inr ''[minor] add feature'' \<Longrightarrow>
   get_commit_message g c3 = Inr ''[major] breaking change'' \<Longrightarrow>
   raised (main g st) = None \<and>
   tagged_versions (main g st) = [''0.0.1'', ''0.1.0'', ''1.0.0''] \<and>
   tag_calls (main g st) =
     [[''git'', ''tag'', ''v0.0.1'', c1],
      [''git'', ''tag'', ''v0.1.0'', c2],
      [''git'', ''tag'', ''v1.0.0'', c3]] \<and>
   version (main g st) = ''1.0.0''"
proof -
  assume cs: "get_commits g = Inr [c1, c2, c3]"
    and m1: "get_commit_message g c1 = Inr ''init''"
    and m2: "get_commit_message g c2 = Inr ''[minor] add feature''"
    and m3: "get_commit_message g c3 = Inr ''[major] breaking change''"
  have b1: "bump_version BASE_VERSION (classify ''init'') = Inr ''0.0.1''"
    by code_simp
  have b2: "bump_version ''0.0.1'' (classify ''[minor] add feature'') = Inr ''0.1.0''"
    by code_simp
  have b3: "bump_version ''0.1.0'' (classify ''[major] breaking change'') = Inr ''1.0.0''"
    by code_simp
  show ?thesis
    by (simp add: main_def cs start_def m1 m2 m3 b1 b2 b3 tagged_versions_def tag_name_def)
qed

theorem three_commit_example_witness:
  "get_commits example_vcs = Inr [''1f3a5c7e9b'', ''2e4b6d8fa0'', ''3d5c7b9a1f''] \<and>
   get_commit_message example_vcs ''1f3a5c7e9b'' = Inr ''init'' \<and>
   get_commit_message example_vcs ''2e4b6d8fa0'' = Inr ''[minor] add feature'' \<and>
   get_commit_message example_vcs ''3d5c7b9a1f'' = Inr ''[major] breaking change'' \<and>
   tag_calls (main example_vcs []) =
     [[''git'', ''tag'', ''v0.0.1'', ''1f3a5c7e9b''],
      [''git'', ''tag'', ''v0.1.0'', ''2e4b6d8fa0''],
      [''git'', ''tag'', ''v1.0.0'', ''3d5c7b9a1f'']]"
proof -
  have cs: "get_commits example_vcs = Inr [''1f3a5c7e9b'', ''2e4b6d8fa0'', ''3d5c7b9a1f'']"
    by code_simp
  have m1: "get_commit_message example_vcs ''1f3a5c7e9b'' = Inr ''init''"
    by code_simp
  have m2: "get_commit_message example_vcs ''2e4b6d8fa0'' = Inr ''[minor] add feature''"
    by code_simp
  have m3: "get_commit_message example_vcs ''3d5c7b9a1f'' = Inr ''[major] breaking change''"
    by code_simp
  show ?thesis
    using cs m1 m2 m3 three_commit_example [OF cs m1 m2 m3, of "[]"] by simp
qed

section \<open>Determinism and the tag writer\<close>

lemma readable_cong:
  "get_commit_message g1 c = get_commit_message g2 c \<Longrightarrow> readable g1 c = readable g2 c"
  by (simp add: readable_def)

lemma message_cong:
  "get_commit_message g1 c = get_commit_message g2 c \<Longrightarrow> message g1 c = message g2 c"
  by (simp add: message_def)

lemma processed_subset: "c \<in> set (processed g cs) \<Longrightarrow> c \<in> set cs"
  unfolding processed_def by (rule set_takeWhileD [THEN conjunct1])

lemma processed_cong:
  assumes "\<forall>c \<in> set cs. get_commit_message g1 c = get_commit_message g2 c"
  shows "processed g1 cs = processed g2 cs"
  unfolding processed_def
proof (rule takeWhile_cong [OF refl])
  fix c assume "c \<in> set cs"
  with assms show "readable g1 c = readable g2 c"
    by (intro readable_cong) blast
qed

lemma derived_cong:
  assumes "\<forall>c \<in> set cs. get_commit_message g1 c = get_commit_message g2 c"
  shows "derived g1 cs = derived g2 cs"
proof -
  have "map (message g1) (processed g2 cs) = map (message g2) (processed g2 cs)"
  proof (rule map_cong [OF refl])
    fix c assume "c \<in> set (processed g2 cs)"
    then have "c \<in> set cs" by (rule processed_subset)
    with assms show "message g1 c = message g2 c"
      by (intro message_cong) blast
  qed
  then show ?thesis
    by (simp only: derived_def processed_cong [OF assms])
qed

lemma first_failure_cong:
  assumes "\<forall>c \<in> set cs. get_commit_message g1 c = get_commit_message g2 c"
  shows "first_failure g1 cs = first_failure g2 cs"
proof -
  have d: "dropWhile (readable g1) cs = dropWhile (readable g2) cs"
  proof (rule dropWhile_cong [OF refl])
    fix c assume "c \<in> set cs"
    with assms show "readable g1 c = readable g2 c"
      by (intro readable_cong) blast
  qed
  show ?thesis
  proof (cases "dropWhile (readable g2) cs")
    case Nil
    show ?thesis by (simp only: first_failure_def d Nil list.case)
  next
    case (Cons c rest)
    then have "c \<in> set cs"
      using set_dropWhileD [of c "readable g2" cs] by simp
    with assms have "get_commit_message g1 c = get_commit_message g2 c"
      by simp
    then show ?thesis
      by (simp only: first_failure_def d Cons list.case)
  qed
qed

text \<open>
  C6. Two runs that list the same commits and read the same message for each of
  them request the same tags for the same commits, derive the same versions, end
  with the same running version and raise the same exception, if any, whatever
  their tag stores and tag writers are: the result depends on the commit list and
  the messages only.
\<close>

theorem main_deterministic:
  assumes "get_commits g1 = get_commits g2"
    and "\<And>cs c. get_commits g1 = Inr cs \<Longrightarrow> c \<in> set cs \<Longrightarrow>
           get_commit_message g1 c = get_commit_message g2 c"
  shows "tag_calls (main g1 s1) = tag_calls (main g2 s2) \<and>
         tagged_versions (main g1 s1) = tagged_versions (main g2 s2) \<and>
         version (main g1 s1) = version (main g2 s2) \<and>
         raised (main g1 s1) = raised (main g2 s2)"
proof (cases "get_commits g1")
  case (Inl e)
  then show ?thesis
    using assms(1) by (simp add: main_def start_def tagged_versions_def)
next
  case (Inr cs)
  then have same: "\<forall>c \<in> set cs. get_commit_message g1 c = get_commit_message g2 c"
    using assms(2) by blast
  have g2: "get_commits g2 = Inr cs"
    using Inr assms(1) by simp
  show ?thesis
    by (simp add: main_def Inr g2 main_loop_start_calls main_loop_tagged_versions
        main_loop_start_version main_loop_start_raised
        processed_cong [OF same] derived_cong [OF same] first_failure_cong [OF same])
qed

theorem main_deterministic_witness:
  "get_commits example_vcs = get_commits example_vcs \<and>
   store (main example_vcs []) = [''v1.0.0'', ''v0.1.0'', ''v0.0.1''] \<and>
   tag_calls (main example_vcs []) = tag_calls (main example_vcs [''v1.0.0'', ''v0.1.0'', ''v0.0.1'']) \<and>
   tagged_versions (main example_vcs [''v1.0.0'', ''v0.1.0'', ''v0.0.1'']) = [''0.0.1'', ''0.1.0'', ''1.0.0'']"
proof -
  have st: "store (main example_vcs []) = [''v1.0.0'', ''v0.1.0'', ''v0.0.1'']"
    by code_simp
  have r: "tagged_versions (main example_vcs []) = [''0.0.1'', ''0.1.0'', ''1.0.0'']"
    by code_simp
  show ?thesis
    using st r main_deterministic [of example_vcs example_vcs "[]" "[''v1.0.0'', ''v0.1.0'', ''v0.0.1'']"]
    by simp
qed

text \<open>
  C8. Two runs over the same history whose tag writers and tag stores are arbitrary,
  so that any write may succeed, find the tag or fail, have the same running version
  after every number \<open>k\<close> of commits processed, the same final version and the same
  sequence of derived versions.
\<close>

theorem tag_outcome_isolation:
  assumes "rev_list g1 = rev_list g2" and "log_message g1 = log_message g2"
  shows "version (main g1 s1) = version (main g2 s2) \<and>
         tagged_versions (main g1 s1) = tagged_versions (main g2 s2) \<and>
         (\<forall>cs k. get_commits g1 = Inr cs \<longrightarrow>
            version (main_loop g1 (take k cs) (start s1)) =
            version (main_loop g2 (take k cs) (start s2)))"
proof -
  have same: "\<forall>c \<in> set cs. get_commit_message g1 c = get_commit_message g2 c" for cs
    using assms(2) by (simp add: get_commit_message_def)
  have loop: "version (main_loop g1 cs (start s1)) = version (main_loop g2 cs (start s2)) \<and>
      tagged_versions (main_loop g1 cs (start s1)) = tagged_versions (main_loop g2 cs (start s2))" for cs
    by (simp add: main_loop_start_version main_loop_tagged_versions derived_cong [OF same])
  have commits: "get_commits g1 = get_commits g2"
    using assms(1) by (simp add: get_commits_def)
  have "version (main g1 s1) = version (main g2 s2) \<and>
      tagged_versions (main g1 s1) = tagged_versions (main g2 s2)"
  proof (cases "get_commits g1")
    case (Inl e)
    then show ?thesis
      using commits by (simp add: main_def start_def tagged_versions_def)
  next
    case (Inr cs)
    then show ?thesis
      using commits loop [of cs] by (simp add: main_def)
  qed
  then show ?thesis
    using loop by blast
qed

theorem tag_outcome_isolation_witness:
  "rev_list example_vcs = rev_list readonly_vcs \<and>
   log_message example_vcs = log_message readonly_vcs \<and>
   fst (run_tag example_vcs [''v0.1.0''] [''git'', ''tag'', ''v0.1.0'', ''2e4b6d8fa0'']) = AlreadyExists \<and>
   fst (run_tag example_vcs [''v0.1.0''] [''git'', ''tag'', ''v0.0.1'', ''1f3a5c7e9b'']) = Success \<and>
   fst (run_tag readonly_vcs () [''git'', ''tag'', ''v0.0.1'', ''1f3a5c7e9b'']) = WriteFailed \<and>
   get_commits example_vcs = Inr [''1f3a5c7e9b'', ''2e4b6d8fa0'', ''3d5c7b9a1f''] \<and>
   version (main_loop example_vcs (take 2 [''1f3a5c7e9b'', ''2e4b6d8fa0'', ''3d5c7b9a1f'']) (start [''v0.1.0''])) =
   version (main_loop readonly_vcs (take 2 [''1f3a5c7e9b'', ''2e4b6d8fa0'', ''3d5c7b9a1f'']) (start ())) \<and>
   version (main example_vcs [''v0.1.0'']) = version (main readonly_vcs ())"
proof -
  have h1: "rev_list example_vcs = rev_list readonly_vcs"
    by (simp add: example_vcs_def readonly_vcs_def)
  have h2: "log_message example_vcs = log_message readonly_vcs"
    by (simp add: example_vcs_def readonly_vcs_def)
  have o: "fst (run_tag example_vcs [''v0.1.0''] [''git'', ''tag'', ''v0.1.0'', ''2e4b6d8fa0'']) = AlreadyExists"
    "fst (run_tag example_vcs [''v0.1.0''] [''git'', ''tag'', ''v0.0.1'', ''1f3a5c7e9b'']) = Success"
    "fst (run_tag readonly_vcs () [''git'', ''tag'', ''v0.0.1'', ''1f3a5c7e9b'']) = WriteFailed"
    by (simp_all add: example_vcs_def readonly_vcs_def tag_store_step_def tag_name_def)
  have cs: "get_commits example_vcs = Inr [''1f3a5c7e9b'', ''2e4b6d8fa0'', ''3d5c7b9a1f'']"
    by code_simp
  show ?thesis
    using h1 h2 o cs tag_outcome_isolation [OF h1 h2, of "[''v0.1.0'']" "()"]
    by blast
qed

section \<open>Failures of the history reader\<close>






section \<open>The tags requested\<close>






section \<open>Parsing inside the fold\<close>

lemma nonneg_spec_bump: "nonneg t \<Longrightarrow> nonneg (spec_bump t l)"
  by (cases t; cases l) (simp_all add: nonneg_def)

lemma nonneg_last_derive: "nonneg t \<Longrightarrow> nonneg (last (t # spec_derive t msgs))"
proof (induction msgs arbitrary: t)
  case Nil
  then show ?case by simp
next
  case (Cons m msgs)
  have "nonneg (spec_bump t (spec_classify m))"
    using Cons.prems by (rule nonneg_spec_bump)
  from Cons.IH [OF this] show ?case
    by simp
qed

lemma format_nonneg:
  "nonneg t \<Longrightarrow>
   \<exists>a b c. t = (int a, int b, int c) \<and>
     format_version t = str_nat a @ ''.'' @ str_nat b @ ''.'' @ str_nat c \<and>
     split (format_version t) (CHR ''.'') = [str_nat a, str_nat b, str_nat c]"
proof -
  assume n: "nonneg t"
  obtain x y z where t: "t = (x, y, z)"
    by (cases t)
  from n t have nn: "0 \<le> x" "0 \<le> y" "0 \<le> z"
    by (simp_all add: nonneg_def)
  then have s: "py_str x = str_nat (nat x)" "py_str y = str_nat (nat y)" "py_str z = str_nat (nat z)"
    by (simp_all add: py_str_def)
  have "t = (int (nat x), int (nat y), int (nat z))"
    using nn t by simp
  moreover have "format_version t = str_nat (nat x) @ ''.'' @ str_nat (nat y) @ ''.'' @ str_nat (nat z)"
    by (simp add: t format_version_def s)
  moreover have "split (format_version t) (CHR ''.'') = [str_nat (nat x), str_nat (nat y), str_nat (nat z)]"
    using split_format [of x y z] by (simp add: t s)
  ultimately show ?thesis
    by blast
qed

lemma first_failure_source:
  "first_failure g cs = Some e \<Longrightarrow> \<exists>c \<in> set cs. get_commit_message g c = Inl e"
proof -
  assume f: "first_failure g cs = Some e"
  then obtain c rest where d: "dropWhile (readable g) cs = c # rest"
    by (cases "dropWhile (readable g) cs") (simp_all add: first_failure_def)
  then have "c \<in> set cs"
    using set_dropWhileD [of c "readable g" cs] by simp
  moreover have "get_commit_message g c = Inl e"
  proof (cases "get_commit_message g c")
    case (Inl e')
    then show ?thesis
      using f by (simp add: first_failure_def d)
  next
    case (Inr msg)
    then show ?thesis
      using f by (simp add: first_failure_def d)
  qed
  ultimately show ?thesis
    by blast
qed

text \<open>
  C10. After any number of commits of any repository, the running version is three
  decimal numerals of natural numbers joined by dots, splitting it at the dots gives
  back exactly these three numerals, \<^verbatim>\<open>parse_version\<close> returns the three numbers,
  and \<^verbatim>\<open>bump_version\<close> succeeds on it at every level. So an exception that ends a
  run is one raised by listing the commits or by reading a message, never one of
  \<^verbatim>\<open>parse_version\<close>. Formatting a triple of non-negative integers and parsing the
  text gives the triple back.
\<close>

theorem parse_version_safe:
  "(\<exists>a b c. version (main_loop g cs (start st)) = str_nat a @ ''.'' @ str_nat b @ ''.'' @ str_nat c \<and>
       split (version (main_loop g cs (start st))) (CHR ''.'') = [str_nat a, str_nat b, str_nat c] \<and>
       parse_version (version (main_loop g cs (start st))) = Inr (int a, int b, int c) \<and>
       (\<forall>level. \<exists>v'. bump_version (version (main_loop g cs (start st))) level = Inr v')) \<and>
   (raised (main g st) = Some e \<longrightarrow>
      get_commits g = Inl e \<or> (\<exists>c. get_commit_message g c = Inl e)) \<and>
   (0 \<le> major \<and> 0 \<le> minor \<and> 0 \<le> patch \<longrightarrow>
      parse_version (format_version (major, minor, patch)) = Inr (major, minor, patch))"
proof (intro conjI)
  let ?t = "last ((0, 0, 0) # derived g cs)"
  have v: "version (main_loop g cs (start st)) = format_version ?t"
    by (rule main_loop_start_version)
  have "nonneg (0, 0, 0)"
    by (simp add: nonneg_def)
  then have "nonneg ?t"
    unfolding derived_def by (rule nonneg_last_derive)
  then obtain a b c where t: "?t = (int a, int b, int c)"
    and f: "format_version ?t = str_nat a @ ''.'' @ str_nat b @ ''.'' @ str_nat c"
    and s: "split (format_version ?t) (CHR ''.'') = [str_nat a, str_nat b, str_nat c]"
    using format_nonneg by blast
  have p: "parse_version (format_version ?t) = Inr (int a, int b, int c)"
    unfolding t by (rule parse_format)
  have "\<exists>v'. bump_version (format_version ?t) level = Inr v'" for level
    using bump_version_greater [OF p] by blast
  then show "\<exists>a b c. version (main_loop g cs (start st)) =
       str_nat a @ ''.'' @ str_nat b @ ''.'' @ str_nat c \<and>
       split (version (main_loop g cs (start st))) (CHR ''.'') = [str_nat a, str_nat b, str_nat c] \<and>
       parse_version (version (main_loop g cs (start st))) = Inr (int a, int b, int c) \<and>
       (\<forall>level. \<exists>v'. bump_version (version (main_loop g cs (start st))) level = Inr v')"
    unfolding v using f s p by blast
next
  show "raised (main g st) = Some e \<longrightarrow>
      get_commits g = Inl e \<or> (\<exists>c. get_commit_message g c = Inl e)"
  proof (cases "get_commits g")
    case (Inl e')
    then show ?thesis
      by (simp add: main_def start_def)
  next
    case (Inr cs')
    then show ?thesis
      using first_failure_source [of g cs' e]
      by (auto simp: main_def main_loop_start_raised)
  qed
next
  show "0 \<le> major \<and> 0 \<le> minor \<and> 0 \<le> patch \<longrightarrow>
      parse_version (format_version (major, minor, patch)) = Inr (major, minor, patch)"
    by (simp add: parse_format)
qed

theorem parse_version_safe_witness:
  "version (main_loop broken_vcs [''1f3a5c7e9b''] (start [])) = ''0.0.1'' \<and>
   parse_version ''0.0.1'' = Inr (0, 0, 1) \<and>
   raised (main broken_vcs []) = Some CalledProcessError \<and>
   get_commit_message broken_vcs ''2e4b6d8fa0'' = Inl CalledProcessError \<and>
   (0::int) \<le> 1 \<and> (0::int) \<le> 4 \<and> (0::int) \<le> 0 \<and>
   parse_version (format_version (1, 4, 0)) = Inr (1, 4, 0) \<and>
   (\<exists>a b c. parse_version (version (main_loop broken_vcs [''1f3a5c7e9b''] (start []))) =
      Inr (int a, int b, int c))"
proof -
  have v: "version (main_loop broken_vcs [''1f3a5c7e9b''] (start [])) = ''0.0.1''"
    by code_simp
  have p: "parse_version ''0.0.1'' = Inr (0, 0, 1)"
    by code_simp
  have r: "raised (main broken_vcs []) = Some CalledProcessError"
    by code_simp
  have m: "get_commit_message broken_vcs ''2e4b6d8fa0'' = Inl CalledProcessError"
    by code_simp
  have t: "(\<exists>a b c. parse_version (version (main_loop broken_vcs [''1f3a5c7e9b''] (start []))) =
        Inr (int a, int b, int c)) \<and>
      parse_version (format_version (1, 4, 0)) = Inr (1, 4, 0)"
    using parse_version_safe [of broken_vcs "[''1f3a5c7e9b'']" "[]" CalledProcessError 1 4 0]
    by simp blast
  show ?thesis
    using v p r m t by simp
qed

end
